theory Spec2Isabelle
  imports Complex_Main
begin

section \<open>The QVM device of pennylane-forest: data model\<close>

text \<open>
  The embedding follows \<^verbatim>\<open>pennylane_forest/qvm.py\<close>. Python floats and NumPy float
  arrays are idealised as \<^typ>\<open>real\<close> and \<^typ>\<open>real list\<close>, Python's unbounded
  integers and NumPy integer columns as \<^typ>\<open>int\<close> and \<^typ>\<open>int list\<close>
  (no 64-bit wrap-around is modelled for the weights \<open>2 ** k\<close>), complex matrices as
  lists of rows. Every \<^verbatim>\<open>raise\<close>, failed dictionary lookup and failed index is a
  value \<open>Inl e\<close>; a Python function that falls off its end returns \<open>None\<close>, which
  is \<open>Inr None\<close> here.

  A constructed device has a positive shot count, and every column of its measurement
  state has that many entries. NumPy's \<open>nan\<close> and \<open>inf\<close>, which a mean over an empty
  column or a quotient by a zero shot count would produce, have no counterpart in
  \<^typ>\<open>real\<close>; every statement below about such a mean or quotient assumes a non-empty
  column or a positive shot count.
\<close>

type_synonym matrix = "complex list list"

type_synonym hkey = "complex list"

datatype param = PFloat real | PMatrix matrix

datatype pykey = WireKey nat | TupleKey hkey

datatype py_error =
    KeyError pykey
  | IndexError
  | ValueError string
  | AttributeError
  | LinAlgError

text \<open>An entry of \<^verbatim>\<open>self._eigs\<close>: \<^verbatim>\<open>{"eigval": w, "eigvec": U}\<close>.\<close>

record eig_entry =
  eigval :: "real list"
  eigvec :: matrix

text \<open>A call \<^verbatim>\<open>self.apply(name, wires, par)\<close>, and an element of \<^verbatim>\<open>self.obs_queue\<close>.\<close>

datatype operation = Operation string "nat list" "param list"

text \<open>
  The instructions of the Quil program \<^verbatim>\<open>self.prog\<close> that this file builds: the
  pragma, \<^verbatim>\<open>RESET\<close>, a gate, the declaration of the classical register and
  \<^verbatim>\<open>MEASURE(q, ro[i])\<close>.
\<close>

datatype instr =
    Pragma string "string list"
  | Reset
  | Gate operation
  | Declare string string nat
  | Measure nat nat


datatype pynum = PyInt int | PyFloat real

record observable =
  name :: string
  wires :: "nat list"
  parameters :: "param list"

record device =
  num_wires :: nat
  shots :: int
  eigs :: "hkey \<rightharpoonup> eig_entry"
  state :: "nat \<rightharpoonup> int list"
  prog :: "instr list"
  obs_queue :: "observable list"
  active_reset :: bool

section \<open>NumPy helpers\<close>

text \<open>\<^verbatim>\<open>1 - 2 * column\<close>, elementwise.\<close>

definition pm_one :: "int list \<Rightarrow> int list" where
  "pm_one col = map (\<lambda>b. 1 - 2 * b) col"

text \<open>\<^verbatim>\<open>np.mean\<close> and \<^verbatim>\<open>np.var\<close> (the latter with its default \<open>ddof = 0\<close>).\<close>

definition np_mean :: "int list \<Rightarrow> real" where
  "np_mean xs = real_of_int (sum_list xs) / real (length xs)"

definition np_var :: "int list \<Rightarrow> real" where
  "np_var xs =
     (let m = np_mean xs
      in sum_list (map (\<lambda>x. (real_of_int x - m)\<^sup>2) xs) / real (length xs))"

text \<open>\<^verbatim>\<open>a @ b\<close> on one-dimensional arrays: the lengths must agree.\<close>

definition np_dot :: "real list \<Rightarrow> real list \<Rightarrow> py_error + real" where
  "np_dot a b =
     (if length a = length b
      then Inr (sum_list (map (\<lambda>(x, y). x * y) (zip a b)))
      else Inl (ValueError ''matmul: mismatch in core dimension''))"

text \<open>\<^verbatim>\<open>tuple(par[0].flatten().tolist())\<close>.\<close>

definition flatten_key :: "param list \<Rightarrow> py_error + hkey" where
  "flatten_key par =
     (case par of
        [] \<Rightarrow> Inl IndexError
      | PMatrix H # _ \<Rightarrow> Inr (concat H)
      | PFloat _ # _ \<Rightarrow> Inl AttributeError)"

text \<open>\<^verbatim>\<open>[self.state[w] for w in wires]\<close>: the first missing wire raises.\<close>

fun state_columns :: "(nat \<rightharpoonup> int list) \<Rightarrow> nat list \<Rightarrow> py_error + int list list" where
  "state_columns st [] = Inr []"
| "state_columns st (w # ws) =
     (case st w of
        None \<Rightarrow> Inl (KeyError (WireKey w))
      | Some c \<Rightarrow>
          (case state_columns st ws of
             Inl e \<Rightarrow> Inl e
           | Inr cs \<Rightarrow> Inr (c # cs)))"

text \<open>
  \<^verbatim>\<open>np.array(cols).T\<close>: one row per shot. Columns of different lengths do not form
  a two-dimensional array (NumPy raises); no column at all gives an array without rows.
\<close>

definition array_T :: "int list list \<Rightarrow> py_error + int list list" where
  "array_T cols =
     (case cols of
        [] \<Rightarrow> Inr []
      | c # cs \<Rightarrow>
          if list_all (\<lambda>d. length d = length c) cs
          then Inr (map (\<lambda>j. map (\<lambda>d. d ! j) cols) [0..<length c])
          else Inl (ValueError ''inhomogeneous shape''))"

section \<open>probabilities\<close>

text \<open>\<^verbatim>\<open>cb = np.sum(2 ** np.arange(len(wires) - 1, -1, -1) * i)\<close>.\<close>

definition cb :: "nat \<Rightarrow> int list \<Rightarrow> int" where
  "cb N i = sum_list (map (\<lambda>(e, b). 2 ^ e * b) (zip (rev [0..<N]) i))"

text \<open>
  The loop \<^verbatim>\<open>for i in res: ... probs[cb, 1] += 1\<close> over the two-column array
  \<open>probs\<close>. NumPy accepts an index \<open>c\<close> with \<open>-M \<le> c < M\<close> for an axis of length
  \<open>M\<close>, a negative one counting from the end, and raises otherwise.
\<close>

fun tally :: "nat \<Rightarrow> int list list \<Rightarrow> (real \<times> real) list \<Rightarrow> py_error + (real \<times> real) list" where
  "tally N [] probs = Inr probs"
| "tally N (i # res) probs =
     (let c = cb N i; M = int (length probs)
      in if - M \<le> c \<and> c < M
         then let k = nat (if c < 0 then c + M else c)
              in tally N res (probs[k := (fst (probs ! k), snd (probs ! k) + 1)])
         else Inl IndexError)"

definition probabilities :: "device \<Rightarrow> nat list \<Rightarrow> py_error + real list" where
  "probabilities dev ws =
     (let N = length ws;
          probs0 = map (\<lambda>k. (real k, 0)) [0..<2 ^ N]
      in case state_columns (state dev) ws of
           Inl e \<Rightarrow> Inl e
         | Inr cols \<Rightarrow>
             (case array_T cols of
                Inl e \<Rightarrow> Inl e
              | Inr res \<Rightarrow>
                  (case tally N res probs0 of
                     Inl e \<Rightarrow> Inl e
                   | Inr probs \<Rightarrow>
                       Inr (map snd
                              (map (\<lambda>(a, b). (a / real_of_int (shots dev), b / real_of_int (shots dev)))
                                 (sort_key fst probs))))))"

section \<open>expval and var\<close>

definition expval :: "device \<Rightarrow> string \<Rightarrow> nat list \<Rightarrow> param list \<Rightarrow> py_error + real option" where
  "expval dev obs ws par =
     (if length ws = 1 then
        (case state dev (ws ! 0) of
           None \<Rightarrow> Inl (KeyError (WireKey (ws ! 0)))
         | Some col \<Rightarrow>
             (let evZ = np_mean (pm_one col);
                  p0 = (1 + evZ) / 2;
                  p1 = (1 - evZ) / 2
              in if obs = ''Identity'' then Inr (Some (p0 + p1))
                 else if obs = ''Hermitian'' then
                   (case flatten_key par of
                      Inl e \<Rightarrow> Inl e
                    | Inr Hkey \<Rightarrow>
                        (case eigs dev Hkey of
                           None \<Rightarrow> Inl (KeyError (TupleKey Hkey))
                         | Some ent \<Rightarrow>
                             (let w = eigval ent
                              in if length w < 2 then Inl IndexError
                                 else Inr (Some (w ! 0 * p0 + w ! 1 * p1)))))
                 else Inr (Some evZ)))
      else
        (case probabilities dev ws of
           Inl e \<Rightarrow> Inl e
         | Inr probs \<Rightarrow>
             if obs = ''Hermitian'' then
               (case flatten_key par of
                  Inl e \<Rightarrow> Inl e
                | Inr Hkey \<Rightarrow>
                    (case eigs dev Hkey of
                       None \<Rightarrow> Inl (KeyError (TupleKey Hkey))
                     | Some ent \<Rightarrow>
                         (case np_dot (eigval ent) probs of
                            Inl e \<Rightarrow> Inl e
                          | Inr r \<Rightarrow> Inr (Some r))))
             else Inr None))"

text \<open>\<^verbatim>\<open>(w ** 2) @ probs - (w @ probs) ** 2\<close>, evaluated left to right.\<close>

definition second_moment :: "real list \<Rightarrow> real list \<Rightarrow> py_error + real" where
  "second_moment w probs =
     (case np_dot (map (\<lambda>x. x\<^sup>2) w) probs of
        Inl e \<Rightarrow> Inl e
      | Inr a \<Rightarrow>
          (case np_dot w probs of
             Inl e \<Rightarrow> Inl e
           | Inr b \<Rightarrow> Inr (a - b\<^sup>2)))"

text \<open>The multi-qubit tail shared by both paths of \<^verbatim>\<open>var\<close> that reach it.\<close>

definition var_multi :: "device \<Rightarrow> string \<Rightarrow> nat list \<Rightarrow> param list \<Rightarrow> py_error + real option" where
  "var_multi dev obs ws par =
     (case probabilities dev ws of
        Inl e \<Rightarrow> Inl e
      | Inr probs \<Rightarrow>
          if obs = ''Hermitian'' then
            (case flatten_key par of
               Inl e \<Rightarrow> Inl e
             | Inr Hkey \<Rightarrow>
                 (case eigs dev Hkey of
                    None \<Rightarrow> Inl (KeyError (TupleKey Hkey))
                  | Some ent \<Rightarrow>
                      (case second_moment (eigval ent) probs of
                         Inl e \<Rightarrow> Inl e
                       | Inr r \<Rightarrow> Inr (Some r))))
          else Inr None)"

definition var :: "device \<Rightarrow> string \<Rightarrow> nat list \<Rightarrow> param list \<Rightarrow> py_error + real option" where
  "var dev obs ws par =
     (if length ws = 1 then
        (if obs = ''Identity'' then Inr (Some 0)
         else
           (case state dev (ws ! 0) of
              None \<Rightarrow> Inl (KeyError (WireKey (ws ! 0)))
            | Some col \<Rightarrow>
                (let varZ = np_var (pm_one col)
                 in if obs \<in> {''PauliX'', ''PauliY'', ''PauliZ'', ''Hadamard''} then Inr (Some varZ)
                    else
                      (let evZ = np_mean (pm_one col);
                           probs = [(1 + evZ) / 2, (1 - evZ) / 2]
                       in if obs = ''Hermitian'' then
                            (case flatten_key par of
                               Inl e \<Rightarrow> Inl e
                             | Inr Hkey \<Rightarrow>
                                 (case eigs dev Hkey of
                                    None \<Rightarrow> Inl (KeyError (TupleKey Hkey))
                                  | Some ent \<Rightarrow>
                                      (case second_moment (eigval ent) probs of
                                         Inl e \<Rightarrow> Inl e
                                       | Inr r \<Rightarrow> Inr (Some r))))
                          else var_multi dev obs ws par))))
      else var_multi dev obs ws par)"

section \<open>Device construction\<close>






text \<open>
  Modelled from the spec: \<^verbatim>\<open>ForestDevice.__init__\<close> (in \<^verbatim>\<open>device.py\<close>, not among
  the sources) is the base constructor; it keeps the wire count and the shot count, which
  is fixed at device construction. The measurement state and the program start empty.
\<close>

definition new_device :: "nat \<Rightarrow> int \<Rightarrow> device" where
  "new_device n s =
     \<lparr>num_wires = n, shots = s, eigs = Map.empty, state = Map.empty,
      prog = [], obs_queue = [], active_reset = False\<rparr>"



section \<open>pre_measure\<close>

text \<open>
  Modelled from the spec: \<^verbatim>\<open>ForestDevice.apply\<close> (in \<^verbatim>\<open>device.py\<close>, not among the
  sources) queues the named gate with its wires and parameters at the end of the working
  program.
\<close>

definition apply_op :: "string \<Rightarrow> nat list \<Rightarrow> param list \<Rightarrow> device \<Rightarrow> device" where
  "apply_op nm ws par dev = dev\<lparr>prog := prog dev @ [Gate (Operation nm ws par)]\<rparr>"

text \<open>\<^verbatim>\<open>U.conj().T\<close>.\<close>

definition conj_T :: "matrix \<Rightarrow> matrix" where
  "conj_T U = transpose (map (map cnj) U)"

text \<open>
  The body of the loop over \<^verbatim>\<open>self.obs_queue\<close>. \<^verbatim>\<open>np.linalg.eigh\<close> is a parameter.
  A Python exception leaves the device as it was mutated so far, so the device is
  returned beside the error.
\<close>

type_synonym eigh_fun = "matrix \<Rightarrow> py_error + real list \<times> matrix"

definition rotate_obs :: "eigh_fun \<Rightarrow> observable \<Rightarrow> device \<Rightarrow> py_error option \<times> device" where
  "rotate_obs eigh e dev =
     (let ws = wires e
      in if name e = ''PauliX'' then (None, apply_op ''Hadamard'' ws [] dev)
         else if name e = ''PauliY'' then
           (None, apply_op ''Hadamard'' ws [] (apply_op ''S'' ws [] (apply_op ''PauliZ'' ws [] dev)))
         else if name e = ''Hadamard'' then (None, apply_op ''RY'' ws [PFloat (- pi / 4)] dev)
         else if name e = ''Hermitian'' then
           (case parameters e of
              [] \<Rightarrow> (Some IndexError, dev)
            | PFloat _ # _ \<Rightarrow> (Some AttributeError, dev)
            | PMatrix H # _ \<Rightarrow>
                (let Hkey = concat H
                 in case eigs dev Hkey of
                      Some ent \<Rightarrow>
                        (None, apply_op ''QubitUnitary'' ws [PMatrix (conj_T (eigvec ent))] dev)
                    | None \<Rightarrow>
                        (case eigh H of
                           Inl err \<Rightarrow> (Some err, dev)
                         | Inr (w, U) \<Rightarrow>
                             (None,
                              apply_op ''QubitUnitary'' ws [PMatrix (conj_T U)]
                                (dev\<lparr>eigs := (eigs dev)(Hkey \<mapsto> \<lparr>eigval = w, eigvec = U\<rparr>)\<rparr>)))))
         else (None, dev))"

fun rotate_queue :: "eigh_fun \<Rightarrow> observable list \<Rightarrow> device \<Rightarrow> py_error option \<times> device" where
  "rotate_queue eigh [] dev = (None, dev)"
| "rotate_queue eigh (e # q) dev =
     (case rotate_obs eigh e dev of
        (Some err, dev') \<Rightarrow> (Some err, dev')
      | (None, dev') \<Rightarrow> rotate_queue eigh q dev')"

text \<open>\<^verbatim>\<open>bitstring_array[:, i]\<close> on an array given by its rows.\<close>

definition column :: "int list list \<Rightarrow> nat \<Rightarrow> py_error + int list" where
  "column rows i =
     (if list_all (\<lambda>r. i < length r) rows then Inr (map (\<lambda>r. r ! i) rows) else Inl IndexError)"

text \<open>
  The loop \<^verbatim>\<open>for i, q in enumerate(qubits): self.state[q] = bitstring_array[:, i]\<close>; a
  failing index leaves the entries written so far.
\<close>

fun extract_state ::
  "int list list \<Rightarrow> (nat \<times> nat) list \<Rightarrow> (nat \<rightharpoonup> int list)
     \<Rightarrow> py_error option \<times> (nat \<rightharpoonup> int list)" where
  "extract_state rows [] st = (None, st)"
| "extract_state rows ((i, q) # iqs) st =
     (case column rows i of
        Inl e \<Rightarrow> (Some e, st)
      | Inr c \<Rightarrow> extract_state rows iqs (st(q \<mapsto> c)))"

text \<open>
  \<^verbatim>\<open>QVMDevice.pre_measure\<close>. The backend is a parameter: \<open>get_qubits\<close> lists the
  qubits of a program, \<open>qc_run\<close> stands for compiling (where needed) and running the
  program wrapped in a loop of \<open>shots\<close> repetitions, and returns the rows of the
  bitstring array.
\<close>

definition pre_measure ::
  "eigh_fun \<Rightarrow> (instr list \<Rightarrow> nat list) \<Rightarrow> (instr list \<Rightarrow> int \<Rightarrow> int list list)
     \<Rightarrow> device \<Rightarrow> py_error option \<times> device" where
  "pre_measure eigh get_qubits qc_run dev =
     (case rotate_queue eigh (obs_queue dev) dev of
        (Some err, dev1) \<Rightarrow> (Some err, dev1)
      | (None, dev1) \<Rightarrow>
          (let prag = Pragma ''INITIAL_REWIRING'' [CHR 0x22 # ''PARTIAL'' @ [CHR 0x22]]
                        # (if active_reset dev1 then [Reset] else []);
               prog1 = prag @ prog dev1;
               qubits = get_qubits prog1;
               prog2 = prog1 @ [Declare ''ro'' ''BIT'' (length qubits)]
                         @ map (\<lambda>(i, q). Measure q i) (enumerate 0 qubits);
               dev2 = dev1\<lparr>prog := prog2\<rparr>;
               bitstring_array = qc_run prog2 (shots dev2)
           in case extract_state bitstring_array (enumerate 0 qubits) Map.empty of
                (r, st) \<Rightarrow> (r, dev2\<lparr>state := st\<rparr>)))"

section \<open>sample\<close>

text \<open>
  Modelled from the spec: \<^verbatim>\<open>sample\<close> is a method of the base class in \<^verbatim>\<open>device.py\<close>,
  which is not among the sources; only its tests are. Following the specification, it
  fails when \<open>n\<close> is zero, negative or non-integral, and otherwise returns the per-shot
  outcomes truncated to \<open>n\<close>: the raw \<open>1 - 2 * bit\<close> for a simple observable,
  and for Hermitian the cached eigenvalue found at the basis-state index of the shot. An
  observable on several wires that is not Hermitian is unsupported. The two messages are
  those the tests expect.
\<close>

fun pynum_val :: "pynum \<Rightarrow> real" where
  "pynum_val (PyInt i) = real_of_int i"
| "pynum_val (PyFloat r) = r"

definition is_integral :: "pynum \<Rightarrow> bool" where
  "is_integral n = (pynum_val n = real_of_int \<lfloor>pynum_val n\<rfloor>)"

fun index_all :: "real list \<Rightarrow> int list \<Rightarrow> py_error + real list" where
  "index_all w [] = Inr []"
| "index_all w (c # cs) =
     (if 0 \<le> c \<and> c < int (length w)
      then (case index_all w cs of Inl e \<Rightarrow> Inl e | Inr vs \<Rightarrow> Inr (w ! nat c # vs))
      else Inl IndexError)"

definition sample :: "device \<Rightarrow> string \<Rightarrow> nat list \<Rightarrow> param list \<Rightarrow> pynum \<Rightarrow> py_error + real list" where
  "sample dev obs ws par n =
     (if pynum_val n = 0 then Inl (ValueError ''Calling sample with n = 0 is not possible.'')
      else if pynum_val n < 0 \<or> \<not> is_integral n
      then Inl (ValueError ''The number of samples must be a positive integer.'')
      else
        (let m = nat \<lfloor>pynum_val n\<rfloor>
         in if obs = ''Hermitian'' then
              (case state_columns (state dev) ws of
                 Inl e \<Rightarrow> Inl e
               | Inr cols \<Rightarrow>
                   (case array_T cols of
                      Inl e \<Rightarrow> Inl e
                    | Inr res \<Rightarrow>
                        (case flatten_key par of
                           Inl e \<Rightarrow> Inl e
                         | Inr Hkey \<Rightarrow>
                             (case eigs dev Hkey of
                                None \<Rightarrow> Inl (KeyError (TupleKey Hkey))
                              | Some ent \<Rightarrow>
                                  (case index_all (eigval ent) (map (cb (length ws)) res) of
                                     Inl e \<Rightarrow> Inl e
                                   | Inr vs \<Rightarrow> Inr (take m vs))))))
            else if length ws = 1 then
              (case state dev (ws ! 0) of
                 None \<Rightarrow> Inl (KeyError (WireKey (ws ! 0)))
               | Some col \<Rightarrow> Inr (take m (map real_of_int (pm_one col))))
            else Inl (ValueError ''Unsupported observable'')))"

section \<open>The specification's basis rotations\<close>

text \<open>
  The gates that the specification lists for one observable. For Hermitian the unitary is
  the conjugate transpose of the eigenvector matrix found in the given cache under the key
  of the observable's matrix. \<open>obs_key\<close> is that key.
\<close>

definition obs_key :: "observable \<Rightarrow> hkey option" where
  "obs_key e =
     (if name e = ''Hermitian''
      then (case parameters e of PMatrix H # _ \<Rightarrow> Some (concat H) | _ \<Rightarrow> None)
      else None)"

definition basis_rotation :: "(hkey \<rightharpoonup> eig_entry) \<Rightarrow> observable \<Rightarrow> instr list" where
  "basis_rotation cache e =
     (if name e = ''PauliX'' then [Gate (Operation ''Hadamard'' (wires e) [])]
      else if name e = ''PauliY'' then
        [Gate (Operation ''PauliZ'' (wires e) []), Gate (Operation ''S'' (wires e) []),
         Gate (Operation ''Hadamard'' (wires e) [])]
      else if name e = ''Hadamard'' then [Gate (Operation ''RY'' (wires e) [PFloat (- pi / 4)])]
      else if name e = ''Hermitian'' then
        (case obs_key e of
           None \<Rightarrow> []
         | Some k \<Rightarrow>
             (case cache k of
                None \<Rightarrow> []
              | Some ent \<Rightarrow> [Gate (Operation ''QubitUnitary'' (wires e) [PMatrix (conj_T (eigvec ent))])]))
      else [])"

text \<open>An observable whose Hermitian matrix, if it has one, is in the cache.\<close>

definition cached :: "(hkey \<rightharpoonup> eig_entry) \<Rightarrow> observable \<Rightarrow> bool" where
  "cached cache e = (case obs_key e of None \<Rightarrow> True | Some k \<Rightarrow> cache k \<noteq> None)"

section \<open>The specification's reading of a shot\<close>

text \<open>
  The bits of shot \<open>j\<close> on the listed wires, and the binary integer they encode with
  the first listed wire most significant; \<open>shot_count\<close> is the number of shots among
  the first \<open>n\<close> that encode \<open>k\<close>.
\<close>

definition shot_bits :: "(nat \<rightharpoonup> int list) \<Rightarrow> nat list \<Rightarrow> nat \<Rightarrow> int list" where
  "shot_bits st ws j = map (\<lambda>w. the (st w) ! j) ws"

definition bits_index :: "int list \<Rightarrow> int" where
  "bits_index bs = foldl (\<lambda>a b. 2 * a + b) 0 bs"

definition shot_count :: "(nat \<rightharpoonup> int list) \<Rightarrow> nat list \<Rightarrow> nat \<Rightarrow> int \<Rightarrow> nat" where
  "shot_count st ws n k = length (filter (\<lambda>j. bits_index (shot_bits st ws j) = k) [0..<n])"

text \<open>A column of \<open>n\<close> bits.\<close>

definition bit_column :: "nat \<Rightarrow> int list \<Rightarrow> bool" where
  "bit_column n col \<longleftrightarrow> length col = n \<and> list_all (\<lambda>b. b = 0 \<or> b = 1) col"

section \<open>Concrete devices\<close>

definition example_device :: "int \<Rightarrow> (nat \<rightharpoonup> int list) \<Rightarrow> (hkey \<rightharpoonup> eig_entry) \<Rightarrow> device" where
  "example_device sh st eg =
     \<lparr>num_wires = 2, shots = sh, eigs = eg, state = st, prog = [], obs_queue = [],
      active_reset = False\<rparr>"

definition example_H2 :: matrix where
  "example_H2 = [[2, 0], [0, 4]]"

definition example_H4 :: matrix where
  "example_H4 = [[1, 0, 0, 0], [0, 2, 0, 0], [0, 0, 3, 0], [0, 0, 0, 4]]"

definition example_eigs :: "hkey \<rightharpoonup> eig_entry" where
  "example_eigs =
     [concat example_H2 \<mapsto> \<lparr>eigval = [2, 4], eigvec = [[1, 0], [0, 1]]\<rparr>,
      concat example_H4 \<mapsto>
        \<lparr>eigval = [1, 2, 3, 4],
         eigvec = [[1, 0, 0, 0], [0, 1, 0, 0], [0, 0, 1, 0], [0, 0, 0, 1]]\<rparr>]"

definition example_measured :: device where
  "example_measured = example_device 2 [0 \<mapsto> [0, 1], 1 \<mapsto> [1, 1]] example_eigs"

text \<open>A queue of observables, a diagonalisation function and a backend to run it on.\<close>

definition example_eigh :: eigh_fun where
  "example_eigh H = (if H = example_H2 then Inr ([2, 4], [[1, 0], [0, 1]]) else Inl LinAlgError)"

definition example_queue :: "observable list" where
  "example_queue =
     [\<lparr>name = ''PauliX'', wires = [0], parameters = []\<rparr>,
      \<lparr>name = ''PauliY'', wires = [1], parameters = []\<rparr>,
      \<lparr>name = ''Hadamard'', wires = [0], parameters = []\<rparr>,
      \<lparr>name = ''Identity'', wires = [1], parameters = []\<rparr>,
      \<lparr>name = ''PauliZ'', wires = [0], parameters = []\<rparr>,
      \<lparr>name = ''Hermitian'', wires = [0], parameters = [PMatrix example_H2]\<rparr>,
      \<lparr>name = ''Hermitian'', wires = [1], parameters = [PMatrix example_H2]\<rparr>]"

definition example_queued :: device where
  "example_queued = (new_device 2 2)\<lparr>obs_queue := example_queue\<rparr>"

definition example_get_qubits :: "instr list \<Rightarrow> nat list" where
  "example_get_qubits p = [0, 1]"

definition example_run :: "instr list \<Rightarrow> int \<Rightarrow> int list list" where
  "example_run p n = [[0, 1], [1, 1]]"

section \<open>Expectation values of the simple single-wire observables\<close>

lemma sum_list_pm_one_const:
  "\<forall>b\<in>set col. b = c \<Longrightarrow> sum_list (pm_one col) = int (length col) * (1 - 2 * c)"
  by (induction col) (simp_all add: pm_one_def algebra_simps)

lemma length_pm_one: "length (pm_one col) = length col"
  by (simp add: pm_one_def)

lemma np_mean_pm_one_zeros:
  assumes "col \<noteq> []" and "\<forall>b\<in>set col. b = 0"
  shows "np_mean (pm_one col) = 1"
  using assms(1) sum_list_pm_one_const [OF assms(2)]
  by (simp add: np_mean_def length_pm_one)

lemma np_mean_pm_one_ones:
  assumes "col \<noteq> []" and "\<forall>b\<in>set col. b = 1"
  shows "np_mean (pm_one col) = - 1"
  using assms(1) sum_list_pm_one_const [OF assms(2)]
  by (simp add: np_mean_def length_pm_one)

text \<open>
  Claim C5. For a single-wire observable named PauliX, PauliY, PauliZ or Hadamard and a
  measurement state holding the column \<open>col\<close> of at least one shot for the wire,
  \<open>expval\<close> returns the sample mean of \<open>1 - 2 * bit\<close> over the column: the sum of
  these values divided by the number of shots. When every bit is 0 the result is 1, and
  when every bit is 1 the result is -1.
\<close>

theorem expval_simple_observable:
  assumes "obs \<in> {''PauliX'', ''PauliY'', ''PauliZ'', ''Hadamard''}"
    and "state dev w = Some col" and "col \<noteq> []"
  shows "expval dev obs [w] par
           = Inr (Some (real_of_int (sum_list (map (\<lambda>b. 1 - 2 * b) col)) / real (length col)))
         \<and> ((\<forall>b\<in>set col. b = 0) \<longrightarrow> expval dev obs [w] par = Inr (Some 1))
         \<and> ((\<forall>b\<in>set col. b = 1) \<longrightarrow> expval dev obs [w] par = Inr (Some (- 1)))"
proof -
  from assms(1) have n: "obs \<noteq> ''Identity''" "obs \<noteq> ''Hermitian''"
    by auto
  have e: "expval dev obs [w] par = Inr (Some (np_mean (pm_one col)))"
    using assms(2) n by (simp add: expval_def)
  have m: "np_mean (pm_one col)
             = real_of_int (sum_list (map (\<lambda>b. 1 - 2 * b) col)) / real (length col)"
    by (simp add: np_mean_def pm_one_def)
  show ?thesis
    using np_mean_pm_one_zeros [of col] np_mean_pm_one_ones [of col] assms(3)
    unfolding e m [symmetric] by simp
qed

theorem expval_simple_observable_witness:
  "expval (example_device 3 [0 \<mapsto> [0, 0, 0]] Map.empty) ''PauliZ'' [0] [] = Inr (Some 1)
   \<and> expval (example_device 2 [0 \<mapsto> [1, 1]] Map.empty) ''PauliX'' [0] [] = Inr (Some (- 1))"
  using expval_simple_observable [of "''PauliZ''" "example_device 3 [0 \<mapsto> [0, 0, 0]] Map.empty" 0 "[0, 0, 0]" "[]"]
    expval_simple_observable [of "''PauliX''" "example_device 2 [0 \<mapsto> [1, 1]] Map.empty" 0 "[1, 1]" "[]"]
  by (simp add: example_device_def)

section \<open>Basis-state probabilities\<close>

lemma state_columns_ok:
  "\<forall>w\<in>set ws. st w \<noteq> None \<Longrightarrow> state_columns st ws = Inr (map (\<lambda>w. the (st w)) ws)"
  by (induction ws) (auto split: option.splits)

lemma array_T_ok:
  assumes "cols \<noteq> []" and "\<forall>c\<in>set cols. length c = n"
  shows "array_T cols = Inr (map (\<lambda>j. map (\<lambda>c. c ! j) cols) [0..<n])"
  using assms by (cases cols) (auto simp: array_T_def list_all_iff)

lemma cb_Nil: "cb n [] = 0"
  by (simp add: cb_def)

lemma cb_Cons: "cb (Suc n) (b # bs) = 2 ^ n * b + cb n bs"
  by (simp add: cb_def)

lemma foldl_bits: "foldl (\<lambda>a b. 2 * a + b) a bs = a * 2 ^ length bs + cb (length bs) bs"
  by (induction bs arbitrary: a) (simp_all add: cb_Nil cb_Cons algebra_simps)

lemma cb_bits_index: "cb (length bs) bs = bits_index bs"
  by (simp add: bits_index_def foldl_bits)

lemma cb_range:
  "\<forall>b\<in>set bs. b = 0 \<or> b = 1 \<Longrightarrow> 0 \<le> cb (length bs) bs \<and> cb (length bs) bs < 2 ^ length bs"
  by (induction bs) (auto simp: cb_Nil cb_Cons)

lemma tally_ok:
  assumes "\<forall>r\<in>set rows. 0 \<le> cb N r \<and> cb N r < int M"
  shows "tally N rows (map (\<lambda>k. (real k, f k)) [0..<M])
           = Inr (map (\<lambda>k. (real k, f k + real (length (filter (\<lambda>r. cb N r = int k) rows)))) [0..<M])"
  using assms
proof (induction rows arbitrary: f)
  case Nil
  then show ?case by simp
next
  case (Cons r rows)
  let ?k = "nat (cb N r)"
  from Cons.prems have r: "0 \<le> cb N r" "cb N r < int M" and rest: "\<forall>r\<in>set rows. 0 \<le> cb N r \<and> cb N r < int M"
    by auto
  have k: "?k < M" using r by linarith
  let ?f = "\<lambda>j. if j = ?k then f j + 1 else f j"
  have upd: "(map (\<lambda>k. (real k, f k)) [0..<M])[?k := (fst (map (\<lambda>k. (real k, f k)) [0..<M] ! ?k), snd (map (\<lambda>k. (real k, f k)) [0..<M] ! ?k) + 1)]
           = map (\<lambda>k. (real k, ?f k)) [0..<M]"
    using k by (auto simp: list_eq_iff_nth_eq nth_list_update)
  have "tally N (r # rows) (map (\<lambda>k. (real k, f k)) [0..<M])
          = tally N rows (map (\<lambda>k. (real k, ?f k)) [0..<M])"
    using r upd by (simp add: Let_def)
  also have "\<dots> = Inr (map (\<lambda>k. (real k, ?f k + real (length (filter (\<lambda>r. cb N r = int k) rows)))) [0..<M])"
    by (rule Cons.IH [OF rest])
  also have "(map (\<lambda>k. (real k, ?f k + real (length (filter (\<lambda>r. cb N r = int k) rows)))) [0..<M])
     = (map (\<lambda>k. (real k, f k + real (length (filter (\<lambda>r. cb N r = int k) (r # rows))))) [0..<M])"
    using r by auto
  finally show ?case .
qed

lemma sort_key_fst_id: "sort_key fst (map (\<lambda>k. (real k, g k)) [0..<M]) = map (\<lambda>k. (real k, g k)) [0..<M]"
proof (rule sort_key_id_if_sorted)
  have "map fst (map (\<lambda>k. (real k, g k)) [0..<M]) = map real [0..<M]"
    by simp
  moreover have "sorted (map real [0..<M])"
    by (simp add: sorted_map sorted_wrt_iff_nth_less)
  ultimately show "sorted (map fst (map (\<lambda>k. (real k, g k)) [0..<M]))"
    by (simp add: comp_def)
qed

lemma count_total:
  assumes "\<forall>r\<in>set rows. 0 \<le> h r \<and> h r < int M"
  shows "sum_list (map (\<lambda>k. length (filter (\<lambda>r. h r = int k) rows)) [0..<M]) = length rows"
  using assms
proof (induction rows)
  case Nil
  then show ?case by simp
next
  case (Cons r rows)
  then have r: "0 \<le> h r" "h r < int M" by auto
  have one: "sum_list (map (\<lambda>k. if h r = int k then 1 else 0) [0..<M]) = (1::nat)"
  proof -
    have "sum_list (map (\<lambda>k. if h r = int k then 1 else 0) [0..<M])
            = (\<Sum>k = 0..<M. if k = nat (h r) then 1 else (0::nat))"
      unfolding interv_sum_list_conv_sum_set_nat using r by (intro sum.cong) auto
    also have "\<dots> = 1" using r by simp
    finally show ?thesis .
  qed
  have "sum_list (map (\<lambda>k. length (filter (\<lambda>r. h r = int k) (r # rows))) [0..<M])
      = sum_list (map (\<lambda>k. (if h r = int k then 1 else 0) + length (filter (\<lambda>r. h r = int k) rows)) [0..<M])"
    by (intro arg_cong [where f = sum_list] map_cong) auto
  also have "\<dots> = 1 + length rows"
    using Cons one by (simp add: sum_list_addf)
  finally show ?case by simp
qed

lemma bit_column_iff:
  "bit_column n col \<longleftrightarrow> length col = n \<and> (\<forall>b\<in>set col. b = 0 \<or> b = 1)"
  by (simp add: bit_column_def list_all_iff)

lemma probabilities_char:
  assumes ne: "ws \<noteq> []"
    and cols: "\<forall>w\<in>set ws. \<exists>col. state dev w = Some col \<and> bit_column n col"
  shows "probabilities dev ws
           = Inr (map (\<lambda>k. real (shot_count (state dev) ws n (int k)) / real_of_int (shots dev))
                    [0..<2 ^ length ws])"
proof -
  let ?st = "state dev" and ?N = "length ws"
  let ?cols = "map (\<lambda>w. the (?st w)) ws"
  let ?rows = "map (shot_bits ?st ws) [0..<n]"
  have c1: "state_columns ?st ws = Inr ?cols"
    using cols by (intro state_columns_ok) auto
  have "array_T ?cols = Inr (map (\<lambda>j. map (\<lambda>c. c ! j) ?cols) [0..<n])"
    using ne cols by (intro array_T_ok) (auto simp: bit_column_iff)
  then have c2: "array_T ?cols = Inr ?rows"
    by (simp add: shot_bits_def comp_def)
  have rng: "\<forall>r\<in>set ?rows. 0 \<le> cb ?N r \<and> cb ?N r < int (2 ^ ?N)"
  proof
    fix r assume "r \<in> set ?rows"
    then obtain j where j: "j < n" and r: "r = shot_bits ?st ws j" by auto
    have len: "length r = ?N" by (simp add: r shot_bits_def)
    have "\<forall>b\<in>set r. b = 0 \<or> b = 1"
    proof
      fix b assume "b \<in> set r"
      then obtain w where w: "w \<in> set ws" and b: "b = the (?st w) ! j"
        by (auto simp: r shot_bits_def)
      from cols w obtain col where "?st w = Some col" "bit_column n col" by blast
      with j b show "b = 0 \<or> b = 1" by (auto simp: bit_column_iff)
    qed
    from cb_range [OF this] len show "0 \<le> cb ?N r \<and> cb ?N r < int (2 ^ ?N)"
      by simp
  qed
  have cnt: "length (filter (\<lambda>r. cb ?N r = k) ?rows) = shot_count ?st ws n k" for k
  proof -
    have "cb ?N (shot_bits ?st ws j) = bits_index (shot_bits ?st ws j)" for j
      using cb_bits_index [of "shot_bits ?st ws j"] by (simp add: shot_bits_def)
    then show ?thesis
      by (simp add: shot_count_def filter_map comp_def)
  qed
  have c3: "tally ?N ?rows (map (\<lambda>k. (real k, 0)) [0..<2 ^ ?N])
          = Inr (map (\<lambda>k. (real k, real (shot_count ?st ws n (int k)))) [0..<2 ^ ?N])"
    using tally_ok [OF rng, of "\<lambda>_. 0"] unfolding cnt by simp
  show ?thesis
    unfolding probabilities_def Let_def c1 sum.case c2 c3 sort_key_fst_id
    by (simp add: comp_def)
qed

lemma shot_count_total:
  assumes "\<forall>w\<in>set ws. \<exists>col. st w = Some col \<and> bit_column n col"
  shows "sum_list (map (\<lambda>k. shot_count st ws n (int k)) [0..<2 ^ length ws]) = n"
proof -
  have rng: "\<forall>j\<in>set [0..<n]. 0 \<le> bits_index (shot_bits st ws j)
               \<and> bits_index (shot_bits st ws j) < int (2 ^ length ws)"
  proof
    fix j assume "j \<in> set [0..<n]"
    then have j: "j < n" by simp
    let ?r = "shot_bits st ws j"
    have len: "length ?r = length ws" by (simp add: shot_bits_def)
    have "\<forall>b\<in>set ?r. b = 0 \<or> b = 1"
    proof
      fix b assume "b \<in> set ?r"
      then obtain w where w: "w \<in> set ws" and b: "b = the (st w) ! j"
        by (auto simp: shot_bits_def)
      from assms w obtain col where "st w = Some col" "bit_column n col" by blast
      with j b show "b = 0 \<or> b = 1" by (auto simp: bit_column_iff)
    qed
    from cb_range [OF this] cb_bits_index [of ?r] len
    show "0 \<le> bits_index ?r \<and> bits_index ?r < int (2 ^ length ws)"
      by simp
  qed
  show ?thesis
    using count_total [OF rng] by (simp add: shot_count_def)
qed

lemma sum_list_real_divide:
  "sum_list (map (\<lambda>k. real (f k) / c) xs) = real (sum_list (map f xs)) / c"
  by (induction xs) (simp_all add: add_divide_distrib)

text \<open>
  Claim C2. For a non-empty wire list of length \<open>N\<close> and a measurement state that maps
  each listed wire to a column of \<open>shots\<close> bits (with the positive shot count of a
  constructed device), \<open>probabilities\<close> returns a vector of length \<open>2 ^ N\<close> whose
  entry at index \<open>k\<close> is the number of shots whose bits on the listed wires, first
  wire most significant, encode \<open>k\<close>, divided by the shot count; the entries sum to 1.
\<close>

theorem probabilities_tally:
  assumes "ws \<noteq> []" and "0 < shots dev"
    and "\<forall>w\<in>set ws. \<exists>col. state dev w = Some col \<and> bit_column (nat (shots dev)) col"
  shows "\<exists>ps. probabilities dev ws = Inr ps
           \<and> length ps = 2 ^ length ws
           \<and> (\<forall>k<2 ^ length ws.
                 ps ! k = real (shot_count (state dev) ws (nat (shots dev)) (int k))
                            / real_of_int (shots dev))
           \<and> sum_list ps = 1"
proof -
  let ?n = "nat (shots dev)" and ?M = "2 ^ length ws :: nat"
  let ?ps = "map (\<lambda>k. real (shot_count (state dev) ws ?n (int k)) / real_of_int (shots dev)) [0..<?M]"
  have p: "probabilities dev ws = Inr ?ps"
    by (rule probabilities_char [OF assms(1) assms(3)])
  have "sum_list ?ps
          = real (sum_list (map (\<lambda>k. shot_count (state dev) ws ?n (int k)) [0..<?M]))
              / real_of_int (shots dev)"
    by (rule sum_list_real_divide)
  also have "\<dots> = real ?n / real_of_int (shots dev)"
    by (simp only: shot_count_total [OF assms(3)])
  also have "\<dots> = 1"
    using assms(2) by simp
  finally have s: "sum_list ?ps = 1" .
  show ?thesis
    using p s by simp
qed


theorem probabilities_tally_witness:
  "probabilities (example_device 2 [0 \<mapsto> [0, 1], 1 \<mapsto> [1, 1]] Map.empty) [0, 1]
     = Inr [0, 1 / 2, 0, 1 / 2]"
proof -
  let ?D = "example_device 2 [0 \<mapsto> [0, 1], 1 \<mapsto> [1, 1]] Map.empty"
  have ne: "[0, 1::nat] \<noteq> []" by simp
  have sh: "0 < shots ?D" by (simp add: example_device_def)
  have h: "\<forall>w\<in>set [0, 1::nat]. \<exists>col. state ?D w = Some col \<and> bit_column (nat (shots ?D)) col"
    by (simp add: example_device_def bit_column_def)
  from probabilities_tally [OF ne sh h]
  obtain ps where p: "probabilities ?D [0, 1] = Inr ps"
    and l: "length ps = 2 ^ length [0, 1::nat]"
    and k: "\<forall>k<2 ^ length [0, 1::nat].
              ps ! k = real (shot_count (state ?D) [0, 1] (nat (shots ?D)) (int k))
                         / real_of_int (shots ?D)"
    by blast
  have u: "[0..<2] = [0, Suc 0]" by (simp add: upt_rec)
  have "ps ! 0 = 0"
    using k [rule_format, of 0]
    by (simp add: example_device_def shot_count_def shot_bits_def bits_index_def u)
  moreover have "ps ! 1 = 1 / 2"
    using k [rule_format, of 1]
    by (simp add: example_device_def shot_count_def shot_bits_def bits_index_def u)
  moreover have "ps ! 2 = 0"
    using k [rule_format, of 2]
    by (simp add: example_device_def shot_count_def shot_bits_def bits_index_def u)
  moreover have "ps ! 3 = 1 / 2"
    using k [rule_format, of 3]
    by (simp add: example_device_def shot_count_def shot_bits_def bits_index_def u)
  moreover have "length ps = 4" using l by simp
  ultimately have "ps = [0, 1 / 2, 0, 1 / 2]"
    by (auto simp: list_eq_iff_nth_eq less_Suc_eq numeral_eq_Suc)
  with p show ?thesis by simp
qed

section \<open>Observables on several wires\<close>


lemma example_probabilities:
  "probabilities (example_device 2 [0 \<mapsto> [0, 1], 1 \<mapsto> [1, 1]] eg) [0, 1]
     = Inr [0, 1 / 2, 0, 1 / 2]"
proof -
  let ?D = "example_device 2 [0 \<mapsto> [0, 1], 1 \<mapsto> [1, 1]] eg"
  have ne: "[0, 1::nat] \<noteq> []" by simp
  have h: "\<forall>w\<in>set [0, 1::nat]. \<exists>col. state ?D w = Some col \<and> bit_column 2 col"
    by (simp add: example_device_def bit_column_def)
  have u: "[0..<2] = [0, Suc 0]" "[0..<4] = [0, 1, 2, 3]" by (simp_all add: upt_rec)
  show ?thesis
    unfolding probabilities_char [OF ne h]
    by (simp add: example_device_def shot_count_def shot_bits_def bits_index_def u)
qed

text \<open>
  Claim C1 says that \<open>expval\<close> and \<open>var\<close> raise an unsupported-observable error
  for an observable on more than one wire that is not Hermitian. The code has no such
  error: after \<open>probabilities\<close> both functions test for Hermitian and otherwise fall off
  their end. On two measured wires, PauliZ gives \<open>None\<close> from both.
\<close>

theorem multi_wire_unsupported_counterexample:
  "expval (example_device 2 [0 \<mapsto> [0, 1], 1 \<mapsto> [1, 1]] Map.empty) ''PauliZ'' [0, 1] [] = Inr None
   \<and> var (example_device 2 [0 \<mapsto> [0, 1], 1 \<mapsto> [1, 1]] Map.empty) ''PauliZ'' [0, 1] [] = Inr None"
  unfolding expval_def var_def var_multi_def example_probabilities by simp

text \<open>
  Claim C1, amended. For an observable on more than one wire whose name is not Hermitian,
  \<open>expval\<close> and \<open>var\<close> raise exactly what \<open>probabilities\<close> raises on those wires,
  and where \<open>probabilities\<close> succeeds they return \<open>None\<close>: no value and no error.
\<close>

theorem multi_wire_unsupported:
  assumes "1 < length ws" and "obs \<noteq> ''Hermitian''"
  shows "expval dev obs ws par
           = (case probabilities dev ws of Inl e \<Rightarrow> Inl e | Inr ps \<Rightarrow> Inr None)
         \<and> var dev obs ws par
           = (case probabilities dev ws of Inl e \<Rightarrow> Inl e | Inr ps \<Rightarrow> Inr None)"
  using assms by (simp add: expval_def var_def var_multi_def split: sum.splits)

theorem multi_wire_unsupported_witness:
  "expval (example_device 2 [0 \<mapsto> [0, 1], 1 \<mapsto> [1, 1]] Map.empty) ''PauliX'' [0, 1] [] = Inr None
   \<and> var (example_device 2 [0 \<mapsto> [0, 1], 1 \<mapsto> [1, 1]] Map.empty) ''PauliX'' [0, 1] [] = Inr None"
  using multi_wire_unsupported [of "[0, 1]" "''PauliX''"
      "example_device 2 [0 \<mapsto> [0, 1], 1 \<mapsto> [1, 1]] Map.empty" "[]"]
  unfolding example_probabilities by simp

section \<open>Hermitian observables\<close>


section \<open>Variance\<close>


lemma example_measured_probabilities:
  "probabilities example_measured [0, 1] = Inr [0, 1 / 2, 0, 1 / 2]"
  unfolding example_measured_def by (rule example_probabilities)

lemma example_measured_fields:
  "state example_measured 0 = Some [0, 1]"
  "eigs example_measured (concat example_H2) = Some \<lparr>eigval = [2, 4], eigvec = [[1, 0], [0, 1]]\<rparr>"
  "eigs example_measured (concat example_H4)
     = Some \<lparr>eigval = [1, 2, 3, 4],
              eigvec = [[1, 0, 0, 0], [0, 1, 0, 0], [0, 0, 1, 0], [0, 0, 0, 1]]\<rparr>"
  "shots example_measured = 2"
  by (simp_all add: example_measured_def example_device_def example_eigs_def example_H2_def
      example_H4_def)

lemma example_mean: "np_mean (pm_one [0, 1]) = 0"
  by (simp add: np_mean_def pm_one_def)



section \<open>The cache lookup of expval and var\<close>

text \<open>
  Claim C10. \<open>expval\<close> and \<open>var\<close> of Hermitian read the eigen-cache at the
  flattened key of the matrix without a guard. Whenever either returns a value, the key is
  in the cache; and for a matrix whose key is absent, once the measurement state has been
  read (one wire) or \<open>probabilities\<close> has returned (several wires), the lookup fails
  with a \<^verbatim>\<open>KeyError\<close> on that key. Neither function returns a device, so no
  diagonalisation is stored.
\<close>

theorem hermitian_needs_cached_key:
  "(expval dev ''Hermitian'' ws par = Inr r \<longrightarrow>
      (\<exists>k. flatten_key par = Inr k \<and> k \<in> dom (eigs dev)))
   \<and> (var dev ''Hermitian'' ws par = Inr r' \<longrightarrow>
      (\<exists>k. flatten_key par = Inr k \<and> k \<in> dom (eigs dev)))
   \<and> (concat H \<notin> dom (eigs dev) \<and> state dev w = Some col \<longrightarrow>
        expval dev ''Hermitian'' [w] (PMatrix H # rest) = Inl (KeyError (TupleKey (concat H)))
        \<and> var dev ''Hermitian'' [w] (PMatrix H # rest) = Inl (KeyError (TupleKey (concat H))))
   \<and> (concat H \<notin> dom (eigs dev) \<and> length ws \<noteq> 1 \<and> probabilities dev ws = Inr ps \<longrightarrow>
        expval dev ''Hermitian'' ws (PMatrix H # rest) = Inl (KeyError (TupleKey (concat H)))
        \<and> var dev ''Hermitian'' ws (PMatrix H # rest) = Inl (KeyError (TupleKey (concat H))))"
proof -
  have a: "\<exists>k. flatten_key par = Inr k \<and> k \<in> dom (eigs dev)"
    if "expval dev ''Hermitian'' ws par = Inr r"
    using that
    by (auto simp: expval_def Let_def split: if_splits option.splits sum.splits)
  have b: "\<exists>k. flatten_key par = Inr k \<and> k \<in> dom (eigs dev)"
    if "var dev ''Hermitian'' ws par = Inr r'"
    using that
    by (auto simp: var_def var_multi_def Let_def split: if_splits option.splits sum.splits)
  have c: "expval dev ''Hermitian'' [w] (PMatrix H # rest) = Inl (KeyError (TupleKey (concat H)))
        \<and> var dev ''Hermitian'' [w] (PMatrix H # rest) = Inl (KeyError (TupleKey (concat H)))"
    if "concat H \<notin> dom (eigs dev)" "state dev w = Some col"
    using that by (auto simp: expval_def var_def flatten_key_def Let_def domIff)
  have d: "expval dev ''Hermitian'' ws (PMatrix H # rest) = Inl (KeyError (TupleKey (concat H)))
        \<and> var dev ''Hermitian'' ws (PMatrix H # rest) = Inl (KeyError (TupleKey (concat H)))"
    if "concat H \<notin> dom (eigs dev)" "length ws \<noteq> 1" "probabilities dev ws = Inr ps"
    using that by (auto simp: expval_def var_def var_multi_def flatten_key_def Let_def domIff)
  show ?thesis using a b c d by blast
qed

theorem hermitian_needs_cached_key_witness:
  "concat example_H2 \<in> dom (eigs example_measured)
   \<and> expval example_measured ''Hermitian'' [0] [PMatrix [[5]]] = Inl (KeyError (TupleKey [5]))
   \<and> var example_measured ''Hermitian'' [0] [PMatrix [[5]]] = Inl (KeyError (TupleKey [5]))
   \<and> expval example_measured ''Hermitian'' [0, 1] [PMatrix [[5]]] = Inl (KeyError (TupleKey [5]))
   \<and> var example_measured ''Hermitian'' [0, 1] [PMatrix [[5]]] = Inl (KeyError (TupleKey [5]))"
proof -
  have e: "expval example_measured ''Hermitian'' [0] [PMatrix example_H2] = Inr (Some 3)"
    by (simp add: expval_def flatten_key_def example_measured_fields example_mean)
  have n: "concat [[5]] \<notin> dom (eigs example_measured)"
    by (simp add: example_measured_def example_device_def example_eigs_def example_H2_def
        example_H4_def)
  note t = hermitian_needs_cached_key [of example_measured _ "[PMatrix example_H2]" "Some 3"
      _ "[[5]]" 0 "[0, 1]" "[]"]
  have a: "concat example_H2 \<in> dom (eigs example_measured)"
    using t [of "[0]"] e by (simp add: flatten_key_def)
  have b: "expval example_measured ''Hermitian'' [0] [PMatrix [[5]]] = Inl (KeyError (TupleKey [5]))
     \<and> var example_measured ''Hermitian'' [0] [PMatrix [[5]]] = Inl (KeyError (TupleKey [5]))"
    using t [of "[0]"] n example_measured_fields(1) by simp
  have c: "expval example_measured ''Hermitian'' [0, 1] [PMatrix [[5]]] = Inl (KeyError (TupleKey [5]))
     \<and> var example_measured ''Hermitian'' [0, 1] [PMatrix [[5]]] = Inl (KeyError (TupleKey [5]))"
    using hermitian_needs_cached_key [of example_measured "[0, 1]" "[]" None None "[[5]]" 0 "[]" "[]"
        "[0, 1 / 2, 0, 1 / 2]"] n example_measured_probabilities by simp
  show ?thesis using a b c by simp
qed

section \<open>Device construction: the configuration errors\<close>











section \<open>Basis rotations of pre_measure\<close>

lemma apply_op_fields:
  "eigs (apply_op nm ws par dev) = eigs dev"
  "shots (apply_op nm ws par dev) = shots dev"
  "active_reset (apply_op nm ws par dev) = active_reset dev"
  "obs_queue (apply_op nm ws par dev) = obs_queue dev"
  "state (apply_op nm ws par dev) = state dev"
  "prog (apply_op nm ws par dev) = prog dev @ [Gate (Operation nm ws par)]"
  by (simp_all add: apply_op_def)

lemma rotate_obs_frame:
  assumes "rotate_obs eigh e dev = (r, dev1)"
  shows "shots dev1 = shots dev" "active_reset dev1 = active_reset dev"
    "obs_queue dev1 = obs_queue dev" "state dev1 = state dev"
  using assms
  by (auto simp: rotate_obs_def Let_def apply_op_fields
      split: if_splits list.splits param.splits option.splits sum.splits prod.splits)

lemma rotate_obs_eigs_mono:
  assumes "rotate_obs eigh e dev = (r, dev1)" and "eigs dev k = Some ent"
  shows "eigs dev1 k = Some ent"
  using assms
  by (auto simp: rotate_obs_def Let_def apply_op_fields
      split: if_splits list.splits param.splits option.splits sum.splits prod.splits)

lemma rotate_queue_frame:
  assumes "rotate_queue eigh q dev = (r, dev1)"
  shows "shots dev1 = shots dev \<and> active_reset dev1 = active_reset dev
         \<and> obs_queue dev1 = obs_queue dev \<and> state dev1 = state dev"
  using assms
proof (induction q arbitrary: dev)
  case Nil
  then show ?case by simp
next
  case (Cons e q)
  obtain r0 d0 where s: "rotate_obs eigh e dev = (r0, d0)" by (cases "rotate_obs eigh e dev")
  show ?case
  proof (cases r0)
    case None
    with Cons.prems s have "rotate_queue eigh q d0 = (r, dev1)" by simp
    from Cons.IH [OF this] rotate_obs_frame [OF s] show ?thesis by simp
  next
    case (Some err)
    with Cons.prems s have "dev1 = d0" by simp
    with rotate_obs_frame [OF s] show ?thesis by simp
  qed
qed

lemma rotate_queue_eigs_mono:
  assumes "rotate_queue eigh q dev = (r, dev1)" and "eigs dev k = Some ent"
  shows "eigs dev1 k = Some ent"
  using assms
proof (induction q arbitrary: dev)
  case Nil
  then show ?case by simp
next
  case (Cons e q)
  obtain r0 d0 where s: "rotate_obs eigh e dev = (r0, d0)" by (cases "rotate_obs eigh e dev")
  have m: "eigs d0 k = Some ent" by (rule rotate_obs_eigs_mono [OF s Cons.prems(2)])
  show ?case
  proof (cases r0)
    case None
    with Cons.prems s have "rotate_queue eigh q d0 = (r, dev1)" by simp
    from Cons.IH [OF this m] show ?thesis .
  next
    case (Some err)
    with Cons.prems s have "dev1 = d0" by simp
    with m show ?thesis by simp
  qed
qed

lemma pre_measure_eigs:
  "eigs (snd (pre_measure eigh gq run dev)) = eigs (snd (rotate_queue eigh (obs_queue dev) dev))"
  by (auto simp: pre_measure_def Let_def split: prod.splits option.splits)

lemma rotate_obs_prog:
  assumes "rotate_obs eigh e dev = (None, dev1)"
  shows "prog dev1 = prog dev @ basis_rotation (eigs dev1) e"
    and "\<forall>k. obs_key e = Some k \<longrightarrow> eigs dev1 k \<noteq> None"
  using assms
  by (auto simp: rotate_obs_def basis_rotation_def obs_key_def Let_def apply_op_fields
      split: if_splits list.splits param.splits option.splits sum.splits prod.splits)



lemma pre_measure_frame:
  assumes "pre_measure eigh gq run dev = (r, dev')"
  shows "obs_queue dev' = obs_queue dev" and "shots dev' = shots dev"
    and "eigs dev' = eigs (snd (rotate_queue eigh (obs_queue dev) dev))"
proof -
  obtain r1 d1 where q: "rotate_queue eigh (obs_queue dev) dev = (r1, d1)"
    by (cases "rotate_queue eigh (obs_queue dev) dev")
  note f = rotate_queue_frame [OF q]
  from assms q f show "obs_queue dev' = obs_queue dev" "shots dev' = shots dev"
    "eigs dev' = eigs (snd (rotate_queue eigh (obs_queue dev) dev))"
    by (auto simp: pre_measure_def Let_def split: option.splits prod.splits)
qed

lemma rotate_obs_indep:
  assumes "cached (eigs dev) e"
  shows "rotate_obs eigh e dev = rotate_obs eigh' e dev"
    and "eigs (snd (rotate_obs eigh e dev)) = eigs dev"
  using assms
  by (auto simp: rotate_obs_def cached_def obs_key_def Let_def apply_op_fields
      split: if_splits list.splits param.splits option.splits)

lemma rotate_queue_indep:
  assumes "list_all (cached (eigs dev)) q"
  shows "rotate_queue eigh q dev = rotate_queue eigh' q dev
         \<and> eigs (snd (rotate_queue eigh q dev)) = eigs dev"
  using assms
proof (induction q arbitrary: dev)
  case Nil
  then show ?case by simp
next
  case (Cons e q)
  then have c: "cached (eigs dev) e" and cs: "list_all (cached (eigs dev)) q" by simp_all
  obtain r0 d0 where s: "rotate_obs eigh e dev = (r0, d0)" by (cases "rotate_obs eigh e dev")
  from rotate_obs_indep(1) [OF c, of eigh eigh'] s
  have s': "rotate_obs eigh' e dev = (r0, d0)" by simp
  from rotate_obs_indep(2) [OF c, of eigh] s
  have e0: "eigs d0 = eigs dev" by simp
  from cs e0 have "list_all (cached (eigs d0)) q" by simp
  from Cons.IH [OF this]
  have i1: "rotate_queue eigh q d0 = rotate_queue eigh' q d0"
    and i2: "eigs (snd (rotate_queue eigh q d0)) = eigs d0" by blast+
  show ?case
  proof (cases r0)
    case None
    have "rotate_queue eigh (e # q) dev = rotate_queue eigh q d0"
      using s None by simp
    moreover have "rotate_queue eigh' (e # q) dev = rotate_queue eigh' q d0"
      using s' None by simp
    ultimately show ?thesis using i1 i2 e0 by simp
  next
    case (Some err)
    with s s' e0 show ?thesis by simp
  qed
qed

lemma pre_measure_indep:
  assumes "list_all (cached (eigs dev)) (obs_queue dev)"
  shows "pre_measure eigh gq run dev = pre_measure eigh' gq run dev"
    and "eigs (snd (pre_measure eigh gq run dev)) = eigs dev"
proof -
  from rotate_queue_indep [OF assms, of eigh eigh']
  have q: "rotate_queue eigh (obs_queue dev) dev = rotate_queue eigh' (obs_queue dev) dev"
    and e: "eigs (snd (rotate_queue eigh (obs_queue dev) dev)) = eigs dev" by blast+
  show "pre_measure eigh gq run dev = pre_measure eigh' gq run dev"
    unfolding pre_measure_def q ..
  show "eigs (snd (pre_measure eigh gq run dev)) = eigs dev"
    using e by (simp add: pre_measure_eigs)
qed

lemma rotate_queue_all_cached:
  assumes "rotate_queue eigh q dev = (None, dev')"
  shows "list_all (cached (eigs dev')) q"
  using assms
proof (induction q arbitrary: dev)
  case Nil
  then show ?case by simp
next
  case (Cons e q)
  obtain r0 d0 where s: "rotate_obs eigh e dev = (r0, d0)" by (cases "rotate_obs eigh e dev")
  with Cons.prems have r0: "r0 = None" and rest: "rotate_queue eigh q d0 = (None, dev')"
    by (auto split: option.splits)
  note s0 = s [unfolded r0]
  have "cached (eigs dev') e"
    unfolding cached_def
  proof (cases "obs_key e")
    case None
    then show "case obs_key e of None \<Rightarrow> True | Some k \<Rightarrow> eigs dev' k \<noteq> None" by simp
  next
    case (Some k)
    with rotate_obs_prog(2) [OF s0] obtain ent where "eigs d0 k = Some ent" by auto
    from rotate_queue_eigs_mono [OF rest this] Some
    show "case obs_key e of None \<Rightarrow> True | Some k \<Rightarrow> eigs dev' k \<noteq> None" by simp
  qed
  with Cons.IH [OF rest] show ?case by simp
qed

lemma rotate_obs_origin:
  assumes "rotate_obs eigh e dev = (r, dev1)" and "eigs dev k = None" and "eigs dev1 k = Some ent"
  shows "\<exists>H rest. name e = ''Hermitian'' \<and> parameters e = PMatrix H # rest \<and> concat H = k
           \<and> eigh H = Inr (eigval ent, eigvec ent)"
  using assms
  by (auto simp: rotate_obs_def Let_def apply_op_fields
      split: if_splits list.splits param.splits option.splits sum.splits prod.splits)

lemma rotate_queue_origin:
  assumes "rotate_queue eigh q dev = (r, dev')" and "eigs dev k = None" and "eigs dev' k = Some ent"
  shows "\<exists>e\<in>set q. \<exists>H rest. name e = ''Hermitian'' \<and> parameters e = PMatrix H # rest
           \<and> concat H = k \<and> eigh H = Inr (eigval ent, eigvec ent)"
  using assms
proof (induction q arbitrary: dev)
  case Nil
  then show ?case by simp
next
  case (Cons e q)
  obtain r0 d0 where s: "rotate_obs eigh e dev = (r0, d0)" by (cases "rotate_obs eigh e dev")
  show ?case
  proof (cases "eigs d0 k")
    case None
    with Cons.prems s have "r0 = None" and rest: "rotate_queue eigh q d0 = (r, dev')"
      by (auto split: option.splits)
    from Cons.IH [OF rest None Cons.prems(3)] show ?thesis by auto
  next
    case (Some ent0)
    have "eigs dev' k = Some ent0"
    proof (cases r0)
      case None
      with Cons.prems s have "rotate_queue eigh q d0 = (r, dev')" by simp
      from rotate_queue_eigs_mono [OF this Some] show ?thesis .
    next
      case (Some err)
      with Cons.prems s have "dev' = d0" by simp
      with \<open>eigs d0 k = Some ent0\<close> show ?thesis by simp
    qed
    with Cons.prems(3) have "ent0 = ent" by simp
    with rotate_obs_origin [OF s Cons.prems(2)] Some show ?thesis by auto
  qed
qed



section \<open>The eigen-cache\<close>

text \<open>
  Claim C9. An entry of the eigen-cache, keyed by the flattened matrix, is never removed
  or overwritten by \<open>pre_measure\<close>, whether it returns or raises. If every Hermitian
  matrix of the queue is already cached, \<open>pre_measure\<close> does not depend on the
  diagonalisation function at all and leaves the cache as it is; after a run that returns,
  every Hermitian matrix of the queue is cached, so processing the same content again
  retrieves the stored entry. An entry that appears was computed by \<^verbatim>\<open>eigh\<close> on a
  matrix of the queue with that key.
\<close>

theorem eigen_cache_invariant:
  "(eigs dev k = Some ent \<and> pre_measure eigh gq run dev = (r, dev') \<longrightarrow> eigs dev' k = Some ent)
   \<and> (list_all (cached (eigs dev)) (obs_queue dev) \<longrightarrow>
        pre_measure eigh gq run dev = pre_measure eigh' gq run dev
        \<and> eigs (snd (pre_measure eigh gq run dev)) = eigs dev)
   \<and> (pre_measure eigh gq run dev = (None, dev') \<longrightarrow>
        obs_queue dev' = obs_queue dev \<and> list_all (cached (eigs dev')) (obs_queue dev'))
   \<and> (eigs dev k = None \<and> pre_measure eigh gq run dev = (r, dev') \<and> eigs dev' k = Some ent \<longrightarrow>
        (\<exists>e\<in>set (obs_queue dev). \<exists>H rest.
            name e = ''Hermitian'' \<and> parameters e = PMatrix H # rest \<and> concat H = k
            \<and> eigh H = Inr (eigval ent, eigvec ent)))"
proof -
  have a: "eigs dev' k = Some ent"
    if "eigs dev k = Some ent" "pre_measure eigh gq run dev = (r, dev')"
  proof -
    obtain r1 d1 where q: "rotate_queue eigh (obs_queue dev) dev = (r1, d1)"
      by (cases "rotate_queue eigh (obs_queue dev) dev")
    from pre_measure_frame(3) [OF that(2)] q rotate_queue_eigs_mono [OF q that(1)]
    show ?thesis by simp
  qed
  have b: "pre_measure eigh gq run dev = pre_measure eigh' gq run dev
        \<and> eigs (snd (pre_measure eigh gq run dev)) = eigs dev"
    if "list_all (cached (eigs dev)) (obs_queue dev)"
    using pre_measure_indep [OF that] by blast
  have c: "obs_queue dev' = obs_queue dev \<and> list_all (cached (eigs dev')) (obs_queue dev')"
    if p: "pre_measure eigh gq run dev = (None, dev')"
  proof -
    obtain r1 d1 where q: "rotate_queue eigh (obs_queue dev) dev = (r1, d1)"
      by (cases "rotate_queue eigh (obs_queue dev) dev")
    with p have r1: "r1 = None"
      by (auto simp: pre_measure_def Let_def split: option.splits prod.splits)
    from pre_measure_frame(3) [OF p] q have e: "eigs dev' = eigs d1" by simp
    from rotate_queue_all_cached [OF q [unfolded r1]] pre_measure_frame(1) [OF p] e
    show ?thesis by simp
  qed
  have d: "\<exists>e\<in>set (obs_queue dev). \<exists>H rest.
            name e = ''Hermitian'' \<and> parameters e = PMatrix H # rest \<and> concat H = k
            \<and> eigh H = Inr (eigval ent, eigvec ent)"
    if "eigs dev k = None" "pre_measure eigh gq run dev = (r, dev')" "eigs dev' k = Some ent"
  proof -
    obtain r1 d1 where q: "rotate_queue eigh (obs_queue dev) dev = (r1, d1)"
      by (cases "rotate_queue eigh (obs_queue dev) dev")
    from pre_measure_frame(3) [OF that(2)] q that(3) have "eigs d1 k = Some ent" by simp
    from rotate_queue_origin [OF q that(1) this] show ?thesis .
  qed
  show ?thesis using a b c d by blast
qed


lemma example_rotated:
  "fst (rotate_queue example_eigh example_queue example_queued) = None"
  "eigs (snd (rotate_queue example_eigh example_queue example_queued)) (concat example_H2)
     = Some \<lparr>eigval = [2, 4], eigvec = [[1, 0], [0, 1]]\<rparr>"
  by (simp_all add: example_queue_def example_queued_def new_device_def rotate_obs_def
      apply_op_def example_eigh_def Let_def)


lemma example_pre_measured:
  "fst (pre_measure example_eigh example_get_qubits example_run example_queued) = None"
  "eigs (snd (pre_measure example_eigh example_get_qubits example_run example_queued))
     (concat example_H2) = Some \<lparr>eigval = [2, 4], eigvec = [[1, 0], [0, 1]]\<rparr>"
proof -
  have q: "obs_queue example_queued = example_queue"
    by (simp add: example_queued_def)
  obtain d1 where r: "rotate_queue example_eigh example_queue example_queued = (None, d1)"
    using example_rotated(1) by (cases "rotate_queue example_eigh example_queue example_queued") auto
  show "fst (pre_measure example_eigh example_get_qubits example_run example_queued) = None"
    by (simp add: pre_measure_def q r Let_def example_get_qubits_def example_run_def column_def
        enumerate_eq_zip upt_rec)
  show "eigs (snd (pre_measure example_eigh example_get_qubits example_run example_queued))
     (concat example_H2) = Some \<lparr>eigval = [2, 4], eigvec = [[1, 0], [0, 1]]\<rparr>"
    unfolding pre_measure_eigs q by (rule example_rotated(2))
qed

theorem eigen_cache_invariant_witness:
  "eigs (snd (pre_measure example_eigh example_get_qubits example_run
                (snd (pre_measure example_eigh example_get_qubits example_run example_queued))))
       (concat example_H2)
     = Some \<lparr>eigval = [2, 4], eigvec = [[1, 0], [0, 1]]\<rparr>
   \<and> pre_measure (\<lambda>H. Inl LinAlgError) example_get_qubits example_run
         (snd (pre_measure example_eigh example_get_qubits example_run example_queued))
       = pre_measure example_eigh example_get_qubits example_run
           (snd (pre_measure example_eigh example_get_qubits example_run example_queued))
   \<and> eigs (snd (pre_measure example_eigh example_get_qubits example_run
                (snd (pre_measure example_eigh example_get_qubits example_run example_queued))))
       = eigs (snd (pre_measure example_eigh example_get_qubits example_run example_queued))
   \<and> example_eigh example_H2 = Inr ([2, 4], [[1, 0], [0, 1]])"
proof -
  define d where "d = snd (pre_measure example_eigh example_get_qubits example_run example_queued)"
  define d' where "d' = snd (pre_measure example_eigh example_get_qubits example_run d)"
  let ?ent = "\<lparr>eigval = [2, 4], eigvec = [[1, 0], [0, 1]]\<rparr>"
  have p: "pre_measure example_eigh example_get_qubits example_run example_queued = (None, d)"
    using example_pre_measured(1) by (simp add: prod_eq_iff d_def)
  have e: "eigs d (concat example_H2) = Some ?ent"
    unfolding d_def by (rule example_pre_measured(2))
  have p': "pre_measure example_eigh example_get_qubits example_run d
              = (fst (pre_measure example_eigh example_get_qubits example_run d), d')"
    by (simp add: d'_def)
  have n: "eigs example_queued (concat example_H2) = None"
    by (simp add: example_queued_def new_device_def)
  from eigen_cache_invariant [of example_queued "concat example_H2" ?ent example_eigh
      example_get_qubits example_run None d example_eigh] p
  have c: "list_all (cached (eigs d)) (obs_queue d)"
    by blast
  from eigen_cache_invariant [of d "concat example_H2" ?ent example_eigh
      example_get_qubits example_run _ d' "\<lambda>H. Inl LinAlgError"] e p' c
  have a: "eigs d' (concat example_H2) = Some ?ent"
    and b: "pre_measure example_eigh example_get_qubits example_run d
              = pre_measure (\<lambda>H. Inl LinAlgError) example_get_qubits example_run d"
    and b': "eigs d' = eigs d"
    unfolding d'_def by blast+
  have o: "example_eigh example_H2 = Inr ([2, 4], [[1, 0], [0, 1]])"
    by (simp add: example_eigh_def)
  show ?thesis
    using a b b' o unfolding d'_def d_def by simp
qed

section \<open>Sampling\<close>

lemma index_all_ok:
  assumes "\<forall>c\<in>set cs. 0 \<le> c \<and> c < int (length w)"
  shows "index_all w cs = Inr (map (\<lambda>c. w ! nat c) cs)"
  using assms by (induction cs) auto

lemma sample_simple_values:
  assumes "\<forall>b\<in>set col. b = 0 \<or> b = 1"
  shows "set (map real_of_int (pm_one col)) \<subseteq> {- 1, 1}"
  using assms by (auto simp: pm_one_def)

text \<open>
  Claim C8. \<open>sample\<close> raises the sampling-argument error (a \<^verbatim>\<open>ValueError\<close>) whenever
  the requested count is zero, negative or not integral. For a positive integer count that
  does not exceed the shot count, on a measurement state of columns of \<open>shots\<close> bits,
  it returns exactly that many values: each is -1 or 1 for a Pauli observable on one wire,
  and each is one of the cached eigenvalues of the matrix for a Hermitian observable.
\<close>

theorem sample_count:
  "(pynum_val n = 0 \<or> pynum_val n < 0 \<or> \<not> is_integral n \<longrightarrow>
      (\<exists>msg. sample dev obs ws par n = Inl (ValueError msg)))
   \<and> (0 < m \<and> m \<le> shots dev \<and> obs \<in> {''PauliX'', ''PauliY'', ''PauliZ''}
        \<and> state dev w = Some col \<and> bit_column (nat (shots dev)) col \<longrightarrow>
        (\<exists>vs. sample dev obs [w] par (PyInt m) = Inr vs \<and> int (length vs) = m
              \<and> set vs \<subseteq> {- 1, 1}))
   \<and> (0 < m \<and> m \<le> shots dev \<and> ws \<noteq> []
        \<and> (\<forall>w\<in>set ws. \<exists>col. state dev w = Some col \<and> bit_column (nat (shots dev)) col)
        \<and> eigs dev (concat H) = Some ent \<and> length (eigval ent) = 2 ^ length ws \<longrightarrow>
        (\<exists>vs. sample dev ''Hermitian'' ws [PMatrix H] (PyInt m) = Inr vs \<and> int (length vs) = m
              \<and> set vs \<subseteq> set (eigval ent)))"
proof -
  have a: "\<exists>msg. sample dev obs ws par n = Inl (ValueError msg)"
    if "pynum_val n = 0 \<or> pynum_val n < 0 \<or> \<not> is_integral n"
    using that by (auto simp: sample_def)
  have b: "\<exists>vs. sample dev obs [w] par (PyInt m) = Inr vs \<and> int (length vs) = m
              \<and> set vs \<subseteq> {- 1, 1}"
    if m: "0 < m" "m \<le> shots dev" and o: "obs \<in> {''PauliX'', ''PauliY'', ''PauliZ''}"
      and c: "state dev w = Some col" "bit_column (nat (shots dev)) col"
  proof -
    from o have nh: "obs \<noteq> ''Hermitian''" by auto
    let ?vs = "take (nat m) (map real_of_int (pm_one col))"
    have s: "sample dev obs [w] par (PyInt m) = Inr ?vs"
      using m nh c(1) by (simp add: sample_def is_integral_def)
    have l: "int (length ?vs) = m"
      using m c(2) by (simp add: bit_column_iff length_pm_one)
    have "set ?vs \<subseteq> set (map real_of_int (pm_one col))"
      by (rule set_take_subset)
    also have "\<dots> \<subseteq> {- 1, 1}"
      using c(2) by (intro sample_simple_values) (simp add: bit_column_iff)
    finally show ?thesis using s l by blast
  qed
  have c: "\<exists>vs. sample dev ''Hermitian'' ws [PMatrix H] (PyInt m) = Inr vs \<and> int (length vs) = m
              \<and> set vs \<subseteq> set (eigval ent)"
    if m: "0 < m" "m \<le> shots dev" and ne: "ws \<noteq> []"
      and cols: "\<forall>w\<in>set ws. \<exists>col. state dev w = Some col \<and> bit_column (nat (shots dev)) col"
      and e: "eigs dev (concat H) = Some ent" "length (eigval ent) = 2 ^ length ws"
  proof -
    let ?st = "state dev" and ?N = "length ws" and ?n = "nat (shots dev)"
    let ?cols = "map (\<lambda>w. the (?st w)) ws"
    let ?rows = "map (shot_bits ?st ws) [0..<?n]"
    have c1: "state_columns ?st ws = Inr ?cols"
      using cols by (intro state_columns_ok) auto
    have "array_T ?cols = Inr (map (\<lambda>j. map (\<lambda>c. c ! j) ?cols) [0..<?n])"
      using ne cols by (intro array_T_ok) (auto simp: bit_column_iff)
    then have c2: "array_T ?cols = Inr ?rows"
      by (simp add: shot_bits_def comp_def)
    have rng: "\<forall>c\<in>set (map (cb ?N) ?rows). 0 \<le> c \<and> c < int (length (eigval ent))"
    proof
      fix c assume "c \<in> set (map (cb ?N) ?rows)"
      then obtain j where j: "j < ?n" and c: "c = cb ?N (shot_bits ?st ws j)" by auto
      let ?r = "shot_bits ?st ws j"
      have len: "length ?r = ?N" by (simp add: shot_bits_def)
      have "\<forall>b\<in>set ?r. b = 0 \<or> b = 1"
      proof
        fix b assume "b \<in> set ?r"
        then obtain w where w: "w \<in> set ws" and b: "b = the (?st w) ! j"
          by (auto simp: shot_bits_def)
        from cols w obtain col where "?st w = Some col" "bit_column ?n col" by blast
        with j b show "b = 0 \<or> b = 1" by (auto simp: bit_column_iff)
      qed
      from cb_range [OF this] len e(2) show "0 \<le> c \<and> c < int (length (eigval ent))"
        by (simp add: c)
    qed
    let ?all = "map (\<lambda>c. eigval ent ! nat c) (map (cb ?N) ?rows)"
    let ?vs = "take (nat m) ?all"
    have c3: "index_all (eigval ent) (map (cb ?N) ?rows) = Inr ?all"
      by (rule index_all_ok [OF rng])
    have s: "sample dev ''Hermitian'' ws [PMatrix H] (PyInt m) = Inr ?vs"
      using m by (simp add: sample_def is_integral_def c1 c2 flatten_key_def e(1) c3 del: map_map)
    have l: "int (length ?vs) = m"
      using m by simp
    have "set ?vs \<subseteq> set ?all" by (rule set_take_subset)
    also have "\<dots> \<subseteq> set (eigval ent)"
      using rng by (auto simp del: map_map)
    finally show ?thesis using s l by blast
  qed
  show ?thesis using a b c by blast
qed

theorem sample_count_witness:
  "(\<exists>msg. sample example_measured ''PauliZ'' [0] [] (PyInt 0) = Inl (ValueError msg))
   \<and> (\<exists>msg. sample example_measured ''PauliZ'' [0] [] (PyInt (- 5)) = Inl (ValueError msg))
   \<and> (\<exists>msg. sample example_measured ''PauliZ'' [0] [] (PyFloat (3 / 2)) = Inl (ValueError msg))
   \<and> (\<exists>vs. sample example_measured ''PauliZ'' [0] [] (PyInt 2) = Inr vs \<and> int (length vs) = 2
          \<and> set vs \<subseteq> {- 1, 1})
   \<and> (\<exists>vs. sample example_measured ''Hermitian'' [0, 1] [PMatrix example_H4] (PyInt 2) = Inr vs
          \<and> int (length vs) = 2 \<and> set vs \<subseteq> {1, 2, 3, 4})"
proof -
  have sh: "shots example_measured = 2"
    by (simp add: example_measured_def example_device_def)
  have st: "state example_measured 0 = Some [0, 1]" "state example_measured 1 = Some [1, 1]"
    by (simp_all add: example_measured_def example_device_def)
  have bc: "bit_column (nat (shots example_measured)) [0, 1]"
    "bit_column (nat (shots example_measured)) [1, 1]"
    by (simp_all add: sh bit_column_def)
  have cols: "\<forall>w\<in>set [0, 1::nat]. \<exists>col. state example_measured w = Some col
                \<and> bit_column (nat (shots example_measured)) col"
    using st bc by simp
  have f: "\<not> is_integral (PyFloat (3 / 2))"
    by (simp add: is_integral_def)
  have a: "\<exists>msg. sample example_measured ''PauliZ'' [0] [] (PyInt 0) = Inl (ValueError msg)"
    using sample_count [of "PyInt 0" example_measured "''PauliZ''" "[0]" "[]"] by simp
  have b: "\<exists>msg. sample example_measured ''PauliZ'' [0] [] (PyInt (- 5)) = Inl (ValueError msg)"
    using sample_count [of "PyInt (- 5)" example_measured "''PauliZ''" "[0]" "[]"] by simp
  have c: "\<exists>msg. sample example_measured ''PauliZ'' [0] [] (PyFloat (3 / 2)) = Inl (ValueError msg)"
    using sample_count [of "PyFloat (3 / 2)" example_measured "''PauliZ''" "[0]" "[]"] f by simp
  have d: "\<exists>vs. sample example_measured ''PauliZ'' [0] [] (PyInt 2) = Inr vs \<and> int (length vs) = 2
          \<and> set vs \<subseteq> {- 1, 1}"
    using sample_count [of "PyInt 2" example_measured "''PauliZ''" "[0]" "[]" 2 0 "[0, 1]"]
      st(1) bc(1) sh by simp
  have e: "\<exists>vs. sample example_measured ''Hermitian'' [0, 1] [PMatrix example_H4] (PyInt 2) = Inr vs
          \<and> int (length vs) = 2 \<and> set vs \<subseteq> {1, 2, 3, 4}"
    using sample_count [of "PyInt 2" example_measured "''Hermitian''" "[0, 1]" "[PMatrix example_H4]"
        2 0 "[0, 1]" example_H4
        "\<lparr>eigval = [1, 2, 3, 4],
          eigvec = [[1, 0, 0, 0], [0, 1, 0, 0], [0, 0, 1, 0], [0, 0, 0, 1]]\<rparr>"]
      cols example_measured_fields(3) sh by simp
  show ?thesis using a b c d e by blast
qed


end
